theory Spec2Isabelle
  imports Main "HOL-Library.Product_Lexorder"
begin

section \<open>The input timetable entity\<close>

text \<open>
  A shallow embedding of the \<^verbatim>\<open>input_timetable\<close> component (\<^verbatim>\<open>src/__init__.py\<close>):
  the list of state events of one entity, the state it reports at an instant, the
  four mutations (\<^verbatim>\<open>set\<close>, \<^verbatim>\<open>unset\<close>, \<^verbatim>\<open>reset\<close>, \<^verbatim>\<open>reconfig\<close>), the
  attribute format used across restarts, and the single wake-up timer.
\<close>

subsection \<open>Times of day\<close>

text \<open>
  \<^verbatim>\<open>datetime.time\<close>, naive: the service schemas strip the zone and the microseconds of
  every time they pass on, and \<^verbatim>\<open>dt_util.now().time()\<close> has no zone either. The constructor
  of the library accepts exactly the field ranges of \<open>valid_time\<close>.
\<close>

record time =
  hour :: nat
  minute :: nat
  second :: nat
  microsecond :: nat

definition valid_time :: "time \<Rightarrow> bool" where
  "valid_time t \<longleftrightarrow> hour t < 24 \<and> minute t < 60 \<and> second t < 60 \<and> microsecond t < 1000000"

definition mk_time :: "nat \<Rightarrow> nat \<Rightarrow> nat \<Rightarrow> nat \<Rightarrow> time" where
  "mk_time h m s us = \<lparr>hour = h, minute = m, second = s, microsecond = us\<rparr>"

definition MIDNIGHT :: time where
  "MIDNIGHT = mk_time 0 0 0 0"

text \<open>Two naive times compare as the tuples of their fields do.\<close>

definition time_key :: "time \<Rightarrow> nat \<times> nat \<times> nat \<times> nat" where
  "time_key t = (hour t, minute t, second t, microsecond t)"

definition time_le :: "time \<Rightarrow> time \<Rightarrow> bool" where
  "time_le a b \<longleftrightarrow> time_key a \<le> time_key b"

definition time_lt :: "time \<Rightarrow> time \<Rightarrow> bool" where
  "time_lt a b \<longleftrightarrow> time_key a < time_key b"

definition remove_micros_and_tz :: "time \<Rightarrow> time" where
  "remove_micros_and_tz t = t\<lparr>microsecond := 0\<rparr>"

text \<open>
  The clock: a date, as the ordinal of its day, and a time of day. The upper end of the
  calendar is not modelled, so the day after \<open>d\<close> is \<open>d + 1\<close>.
\<close>

record datetime =
  dt_date :: nat
  dt_time :: time

definition combine :: "nat \<Rightarrow> time \<Rightarrow> datetime" where
  "combine d t = \<lparr>dt_date = d, dt_time = t\<rparr>"

subsection \<open>Errors\<close>

datatype error =
  Invalid string
  | KeyError string
  | ValueError string
  | OffsetAware string

subsection \<open>The ISO format of a time\<close>

definition digit_char :: "nat \<Rightarrow> char" where
  "digit_char n = char_of (48 + n)"

definition is_digit :: "char \<Rightarrow> bool" where
  "is_digit c \<longleftrightarrow> 48 \<le> (of_char c :: nat) \<and> (of_char c :: nat) \<le> 57"

definition digit_val :: "char \<Rightarrow> nat" where
  "digit_val c = of_char c - 48"

text \<open>
  \<^verbatim>\<open>"%02d"\<close> and \<^verbatim>\<open>"%06d"\<close>: the decimal digits of a number, padded with zeros
  to two and to six digits. The fields of a valid time need no more digits.
\<close>

fun fmt_digits :: "nat \<Rightarrow> nat \<Rightarrow> string" where
  "fmt_digits 0 n = []"
| "fmt_digits (Suc k) n = fmt_digits k (n div 10) @ [digit_char (n mod 10)]"

definition fmt_02d :: "nat \<Rightarrow> string" where
  "fmt_02d n = fmt_digits 2 n"

definition fmt_06d :: "nat \<Rightarrow> string" where
  "fmt_06d n = fmt_digits 6 n"

text \<open>
  \<^verbatim>\<open>time.isoformat()\<close>: \<^verbatim>\<open>HH:MM:SS\<close>, followed by \<^verbatim>\<open>.ffffff\<close> when the microseconds
  are not zero.
\<close>

definition isoformat :: "time \<Rightarrow> string" where
  "isoformat t =
     fmt_02d (hour t) @ '':'' @ fmt_02d (minute t) @ '':'' @ fmt_02d (second t) @
     (if microsecond t = 0 then [] else ''.'' @ fmt_06d (microsecond t))"

text \<open>Reading a number of digits: the two of a component, the three or six of a fraction.\<close>

fun read_digits :: "nat \<Rightarrow> string \<Rightarrow> nat option" where
  "read_digits acc [] = Some acc"
| "read_digits acc (c # cs) =
     (if is_digit c then read_digits (10 * acc + digit_val c) cs else None)"

fun read2 :: "string \<Rightarrow> (nat \<times> string) option" where
  "read2 (a # b # rest) =
     (if is_digit a \<and> is_digit b then Some (10 * digit_val a + digit_val b, rest) else None)"
| "read2 _ = None"

text \<open>
  \<^verbatim>\<open>time.fromisoformat\<close> on the grammar \<^verbatim>\<open>HH[:MM[:SS[.fff[fff]]]]\<close>; anything else is
  a \<^verbatim>\<open>ValueError\<close>, and so is a component out of range, which the constructor refuses.
  A string with a sign carries a UTC offset: the library would answer with an
  offset-aware time, which the naive \<open>time\<close> cannot hold, so the model sets that case
  apart as \<open>OffsetAware\<close>.
\<close>

definition parse_hh_mm_ss_ff :: "string \<Rightarrow> (nat \<times> nat \<times> nat \<times> nat) option" where
  "parse_hh_mm_ss_ff tstr =
     (case read2 tstr of
        None \<Rightarrow> None
      | Some (hh, r1) \<Rightarrow>
          (case r1 of
             [] \<Rightarrow> Some (hh, 0, 0, 0)
           | c1 # r1' \<Rightarrow>
               if c1 \<noteq> CHR '':'' then None
               else (case read2 r1' of
                  None \<Rightarrow> None
                | Some (mm, r2) \<Rightarrow>
                    (case r2 of
                       [] \<Rightarrow> Some (hh, mm, 0, 0)
                     | c2 # r2' \<Rightarrow>
                         if c2 \<noteq> CHR '':'' then None
                         else (case read2 r2' of
                            None \<Rightarrow> None
                          | Some (ss, r3) \<Rightarrow>
                              (case r3 of
                                 [] \<Rightarrow> Some (hh, mm, ss, 0)
                               | c3 # r3' \<Rightarrow>
                                   if c3 \<noteq> CHR ''.'' then None
                                   else if length r3' = 3 then
                                     map_option (\<lambda>us. (hh, mm, ss, us * 1000)) (read_digits 0 r3')
                                   else if length r3' = 6 then
                                     map_option (\<lambda>us. (hh, mm, ss, us)) (read_digits 0 r3')
                                   else None))))))"

definition fromisoformat :: "string \<Rightarrow> error + time" where
  "fromisoformat tstr =
     (if CHR ''+'' \<in> set tstr \<or> CHR ''-'' \<in> set tstr then Inl (OffsetAware tstr)
      else (case parse_hh_mm_ss_ff tstr of
         None \<Rightarrow> Inl (ValueError tstr)
       | Some (hh, mm, ss, us) \<Rightarrow>
           if valid_time (mk_time hh mm ss us) then Inr (mk_time hh mm ss us)
           else Inl (ValueError tstr)))"

subsection \<open>State events and the timetable\<close>

definition STATE_ON :: string where
  "STATE_ON = ''on''"

definition STATE_OFF :: string where
  "STATE_OFF = ''off''"

definition ATTR_TIME :: string where
  "ATTR_TIME = ''time''"

definition ATTR_STATE :: string where
  "ATTR_STATE = ''state''"

record StateEvent =
  time :: time
  state :: string

definition mk_event :: "time \<Rightarrow> string \<Rightarrow> StateEvent" where
  "mk_event tm st = \<lparr>time = tm, state = st\<rparr>"

text \<open>\<^verbatim>\<open>_sort_timetable\<close>: a stable sort on the time of the events.\<close>

definition sort_timetable :: "StateEvent list \<Rightarrow> StateEvent list" where
  "sort_timetable tt = sort_key (\<lambda>event. time_key (time event)) tt"

text \<open>
  The \<^verbatim>\<open>state\<close> property. The loop keeps the event it has passed in \<open>prev\<close> and
  stops at the first event with \<^verbatim>\<open>prev.time <= now < event.time\<close>.
\<close>

fun state_loop :: "time \<Rightarrow> StateEvent \<Rightarrow> StateEvent list \<Rightarrow> StateEvent" where
  "state_loop now prev [] = prev"
| "state_loop now prev (event # rest) =
     (if time_le (time prev) now \<and> time_lt now (time event) then prev
      else state_loop now event rest)"

definition state_property :: "StateEvent list \<Rightarrow> time \<Rightarrow> string" where
  "state_property tt now =
     (if tt = [] then STATE_OFF
      else state (state_loop now (mk_event MIDNIGHT (state (last tt))) tt))"

text \<open>
  The attribute format: a list of dictionaries with the keys \<^verbatim>\<open>time\<close> and
  \<^verbatim>\<open>state\<close>.
\<close>

type_synonym attr = "string \<rightharpoonup> string"

definition timetable_to_attribute :: "StateEvent list \<Rightarrow> attr list" where
  "timetable_to_attribute tt =
     map (\<lambda>event. [ATTR_TIME \<mapsto> isoformat (time event), ATTR_STATE \<mapsto> state event]) tt"

definition event_from_attribute :: "attr \<Rightarrow> error + StateEvent" where
  "event_from_attribute event =
     (case event ATTR_TIME of
        None \<Rightarrow> Inl (KeyError ATTR_TIME)
      | Some tstr \<Rightarrow>
          (case fromisoformat tstr of
             Inl e \<Rightarrow> Inl e
           | Inr tm \<Rightarrow>
               (case event ATTR_STATE of
                  None \<Rightarrow> Inl (KeyError ATTR_STATE)
                | Some st \<Rightarrow> Inr (mk_event tm st))))"

fun events_from_attribute :: "attr list \<Rightarrow> error + StateEvent list" where
  "events_from_attribute [] = Inr []"
| "events_from_attribute (event # rest) =
     (case event_from_attribute event of
        Inl e \<Rightarrow> Inl e
      | Inr ev \<Rightarrow>
          (case events_from_attribute rest of
             Inl e \<Rightarrow> Inl e
           | Inr evs \<Rightarrow> Inr (ev # evs)))"

text \<open>
  \<^verbatim>\<open>_timetable_from_attribute\<close>: the list is built first and assigned when every
  entry has parsed, then sorted.
\<close>

definition timetable_from_attribute :: "attr list \<Rightarrow> error + StateEvent list" where
  "timetable_from_attribute timetable =
     (case events_from_attribute timetable of
        Inl e \<Rightarrow> Inl e
      | Inr evs \<Rightarrow> Inr (sort_timetable evs))"

text \<open>
  The loop of \<^verbatim>\<open>async_set\<close>: the first event at the time gets the state; \<open>None\<close> is
  the \<^verbatim>\<open>else\<close> of the loop, no event at that time.
\<close>

fun set_loop :: "time \<Rightarrow> string \<Rightarrow> StateEvent list \<Rightarrow> StateEvent list option" where
  "set_loop tm st [] = None"
| "set_loop tm st (event # rest) =
     (if time event = tm then Some (event\<lparr>state := st\<rparr> # rest)
      else map_option ((#) event) (set_loop tm st rest))"

text \<open>
  What \<^verbatim>\<open>async_set\<close> does to the list: the loop, and in its \<^verbatim>\<open>else\<close> the new event
  appended and the list sorted.
\<close>

definition set_timetable :: "time \<Rightarrow> string \<Rightarrow> StateEvent list \<Rightarrow> StateEvent list" where
  "set_timetable tm st tt =
     (case set_loop tm st tt of
        Some tt' \<Rightarrow> tt'
      | None \<Rightarrow> sort_timetable (tt @ [mk_event tm st]))"

text \<open>The loop of \<^verbatim>\<open>async_unset\<close>: the first event at the time is removed.\<close>

fun unset_loop :: "time \<Rightarrow> StateEvent list \<Rightarrow> StateEvent list option" where
  "unset_loop tm [] = None"
| "unset_loop tm (event # rest) =
     (if time event = tm then Some rest
      else map_option ((#) event) (unset_loop tm rest))"

subsection \<open>The host: the timer primitive and the written states\<close>

text \<open>
  What the entity sees of the host. \<open>timers\<close> are the one-shot timers that are armed
  and neither cancelled nor fired, each with the handle its unsubscribe function stands
  for; \<open>written\<close> are the states the entity has published, the latest last.
\<close>

record HomeAssistant =
  timers :: "(nat \<times> datetime) list"
  next_handle :: nat
  written :: "(string \<times> bool \<times> attr list) list"

text \<open>
  Modelled from the spec: the timer primitive of the host, section 6
  (\<^verbatim>\<open>armOnce(instant, callback) -> handle\<close>, \<^verbatim>\<open>cancel(handle)\<close>), which the source
  calls as \<^verbatim>\<open>event_helper.async_track_point_in_time\<close>. It arms a one-shot timer and
  returns the function that cancels it; calling that function removes the timer, and does
  nothing once the timer is gone.
\<close>

definition async_track_point_in_time :: "datetime \<Rightarrow> HomeAssistant \<Rightarrow> nat \<times> HomeAssistant" where
  "async_track_point_in_time point_in_time hs =
     (next_handle hs,
      hs\<lparr>timers := timers hs @ [(next_handle hs, point_in_time)],
         next_handle := Suc (next_handle hs)\<rparr>)"

definition unsub :: "nat \<Rightarrow> HomeAssistant \<Rightarrow> HomeAssistant" where
  "unsub h hs = hs\<lparr>timers := filter (\<lambda>tp. fst tp \<noteq> h) (timers hs)\<rparr>"

subsection \<open>The entity\<close>

record InputTimeTable =
  config :: "string \<rightharpoonup> string"
  timetable :: "StateEvent list"
  editable :: bool
  event_unsub :: "nat option"
  hass :: HomeAssistant

definition init :: "(string \<rightharpoonup> string) \<Rightarrow> HomeAssistant \<Rightarrow> InputTimeTable" where
  "init cfg hs =
     \<lparr>config = cfg, timetable = [], editable = True, event_unsub = None, hass = hs\<rparr>"

definition from_yaml :: "(string \<rightharpoonup> string) \<Rightarrow> HomeAssistant \<Rightarrow> InputTimeTable" where
  "from_yaml cfg hs = (init cfg hs)\<lparr>editable := False\<rparr>"

definition state_attributes :: "InputTimeTable \<Rightarrow> bool \<times> attr list" where
  "state_attributes self = (editable self, timetable_to_attribute (timetable self))"

text \<open>
  Modelled from the spec: the state publisher of the host, section 6
  (\<^verbatim>\<open>notifyState(state, timetableSnapshot)\<close>), which the source calls as
  \<^verbatim>\<open>async_write_ha_state\<close>. It reads the \<^verbatim>\<open>state\<close> property, which reads the clock,
  and the attributes, and publishes them.
\<close>

definition async_write_ha_state :: "datetime \<Rightarrow> InputTimeTable \<Rightarrow> InputTimeTable" where
  "async_write_ha_state now self =
     self\<lparr>hass := (hass self)\<lparr>written := written (hass self) @
        [(state_property (timetable self) (dt_time now), state_attributes self)]\<rparr>\<rparr>"

text \<open>The first lines of \<^verbatim>\<open>_schedule_update\<close>: a timer that is held is cancelled.\<close>

definition cancel_update :: "InputTimeTable \<Rightarrow> InputTimeTable" where
  "cancel_update self =
     (case event_unsub self of
        None \<Rightarrow> self
      | Some h \<Rightarrow> self\<lparr>hass := unsub h (hass self), event_unsub := None\<rparr>)"

text \<open>
  The loop of \<^verbatim>\<open>_schedule_update\<close>; \<open>None\<close> is its \<^verbatim>\<open>else\<close>, no event was
  found.
\<close>

fun next_change_loop :: "nat \<Rightarrow> time \<Rightarrow> time \<Rightarrow> StateEvent list \<Rightarrow> datetime option" where
  "next_change_loop today tm prev [] = None"
| "next_change_loop today tm prev (event # rest) =
     (if time_le prev tm \<and> time_lt tm (time event) then Some (combine today (time event))
      else next_change_loop today tm (time event) rest)"

definition next_change :: "datetime \<Rightarrow> StateEvent list \<Rightarrow> datetime" where
  "next_change now tt =
     (case next_change_loop (dt_date now) (dt_time now) MIDNIGHT tt of
        Some point \<Rightarrow> point
      | None \<Rightarrow> combine (dt_date now + 1) (time (tt ! 0)))"

definition schedule_update :: "datetime \<Rightarrow> InputTimeTable \<Rightarrow> InputTimeTable" where
  "schedule_update now self0 =
     (let self = cancel_update self0 in
      if timetable self = [] \<or> length (timetable self) = 1 then self
      else
        (case async_track_point_in_time (next_change now (timetable self)) (hass self) of
           (h, hs) \<Rightarrow> self\<lparr>hass := hs, event_unsub := Some h\<rparr>))"

text \<open>
  \<^verbatim>\<open>_update_state\<close>. The clock is read twice, by \<^verbatim>\<open>_schedule_update\<close> (\<open>now\<close>) and
  by the \<^verbatim>\<open>state\<close> property when the state is written (\<open>now_w\<close>).
\<close>

definition update_state :: "datetime \<Rightarrow> datetime \<Rightarrow> InputTimeTable \<Rightarrow> InputTimeTable" where
  "update_state now now_w self = async_write_ha_state now_w (schedule_update now self)"

text \<open>
  The operations return the exception they raise, if any, and the entity as it is when
  they return or raise.
\<close>

definition async_set ::
  "time \<Rightarrow> string \<Rightarrow> datetime \<Rightarrow> datetime \<Rightarrow> InputTimeTable \<Rightarrow> error option \<times> InputTimeTable" where
  "async_set tm st now now_w self =
     (None, update_state now now_w (self\<lparr>timetable := set_timetable tm st (timetable self)\<rparr>))"

definition async_unset ::
  "time \<Rightarrow> datetime \<Rightarrow> datetime \<Rightarrow> InputTimeTable \<Rightarrow> error option \<times> InputTimeTable" where
  "async_unset tm now now_w self =
     (case unset_loop tm (timetable self) of
        None \<Rightarrow>
          (Some (Invalid (''The time '' @ isoformat tm @ '' doesn'' @ [CHR 0x27] @ ''t exist'')),
           self)
      | Some tt' \<Rightarrow> (None, update_state now now_w (self\<lparr>timetable := tt'\<rparr>)))"

definition async_reset ::
  "datetime \<Rightarrow> datetime \<Rightarrow> InputTimeTable \<Rightarrow> error option \<times> InputTimeTable" where
  "async_reset now now_w self = (None, update_state now now_w (self\<lparr>timetable := []\<rparr>))"

text \<open>
  \<^verbatim>\<open>async_reconfig\<close>. The service schema has made every entry of the list a dictionary
  with a time and a state, here a pair.
\<close>

definition async_reconfig ::
  "(time \<times> string) list \<Rightarrow> datetime \<Rightarrow> datetime \<Rightarrow> InputTimeTable \<Rightarrow>
     error option \<times> InputTimeTable" where
  "async_reconfig tt_new now now_w self =
     (if length tt_new > card (set (map fst tt_new)) then
        (Some (Invalid ''The same time is not allowed more than once''), self)
      else
        (None,
         update_state now now_w
           (self\<lparr>timetable := sort_timetable (map (\<lambda>event. mk_event (fst event) (snd event)) tt_new)\<rparr>)))"

definition async_update_config ::
  "(string \<rightharpoonup> string) \<Rightarrow> datetime \<Rightarrow> datetime \<Rightarrow> InputTimeTable \<Rightarrow>
     error option \<times> InputTimeTable" where
  "async_update_config cfg now now_w self = (None, update_state now now_w (self\<lparr>config := cfg\<rparr>))"

text \<open>
  \<^verbatim>\<open>async_added_to_hass\<close>. \<open>last_timetable\<close> is the timetable attribute of the last
  state the host has kept, \<open>None\<close> when there is no such state or no such attribute.
\<close>

definition async_added_to_hass ::
  "attr list option \<Rightarrow> datetime \<Rightarrow> datetime \<Rightarrow> InputTimeTable \<Rightarrow> error option \<times> InputTimeTable" where
  "async_added_to_hass last_timetable now now_w self =
     (case last_timetable of
        None \<Rightarrow> (None, update_state now now_w self)
      | Some [] \<Rightarrow> (None, update_state now now_w self)
      | Some (a # as) \<Rightarrow>
          (case timetable_from_attribute (a # as) of
             Inl e \<Rightarrow> (Some e, self)
           | Inr tt \<Rightarrow> (None, update_state now now_w (self\<lparr>timetable := tt\<rparr>))))"

text \<open>
  The timer with handle \<open>h\<close> fires: the host drops it, being one-shot, and calls
  \<^verbatim>\<open>_update_state\<close>, the action it was armed with.
\<close>

definition timer_fired :: "nat \<Rightarrow> datetime \<Rightarrow> datetime \<Rightarrow> InputTimeTable \<Rightarrow> InputTimeTable" where
  "timer_fired h now now_w self = update_state now now_w (self\<lparr>hass := unsub h (hass self)\<rparr>)"

text \<open>
  Removal of the entity. The class overrides no removal hook and registers no clean-up
  with the host, so nothing of the component runs: its fields and its timer stay as
  they are.
\<close>

definition async_remove :: "InputTimeTable \<Rightarrow> InputTimeTable" where
  "async_remove self = self"

text \<open>
  The entity services, as \<^verbatim>\<open>async_setup\<close> registers them, with the arguments that
  the service schemas hand over.
\<close>

datatype service_call =
  SERVICE_SET time string
  | SERVICE_UNSET time
  | SERVICE_RESET
  | SERVICE_RECONFIG "(time \<times> string) list"

fun call_service ::
  "service_call \<Rightarrow> datetime \<Rightarrow> datetime \<Rightarrow> InputTimeTable \<Rightarrow> error option \<times> InputTimeTable" where
  "call_service (SERVICE_SET tm st) now now_w self = async_set tm st now now_w self"
| "call_service (SERVICE_UNSET tm) now now_w self = async_unset tm now now_w self"
| "call_service SERVICE_RESET now now_w self = async_reset now now_w self"
| "call_service (SERVICE_RECONFIG tt_new) now now_w self = async_reconfig tt_new now now_w self"

text \<open>A sequence of service calls; a call that raises fails alone, the next one runs.\<close>

fun call_services :: "(service_call \<times> datetime \<times> datetime) list \<Rightarrow> InputTimeTable \<Rightarrow> InputTimeTable" where
  "call_services [] self = self"
| "call_services ((c, now, now_w) # cs) self =
     call_services cs (snd (call_service c now now_w self))"

text \<open>The states of the entity that its life can reach.\<close>

inductive reachable :: "InputTimeTable \<Rightarrow> bool" where
  reach_init: "timers hs = [] \<Longrightarrow> reachable (init cfg hs)"
| reach_yaml: "timers hs = [] \<Longrightarrow> reachable (from_yaml cfg hs)"
| reach_added: "reachable self \<Longrightarrow> reachable (snd (async_added_to_hass last_timetable now now_w self))"
| reach_service: "reachable self \<Longrightarrow> reachable (snd (call_service c now now_w self))"
| reach_config: "reachable self \<Longrightarrow> reachable (snd (async_update_config cfg now now_w self))"
| reach_fired: "reachable self \<Longrightarrow> h \<in> fst ` set (timers (hass self)) \<Longrightarrow>
     reachable (timer_fired h now now_w self)"

subsection \<open>Order of a timetable, and the state at an instant as the specification words it\<close>

definition ascending :: "StateEvent list \<Rightarrow> bool" where
  "ascending tt \<longleftrightarrow> sorted_wrt (\<lambda>a b. time_le (time a) (time b)) tt"

definition strictly_ascending :: "StateEvent list \<Rightarrow> bool" where
  "strictly_ascending tt \<longleftrightarrow> sorted_wrt (\<lambda>a b. time_lt (time a) (time b)) tt"

text \<open>
  The walk of the specification, section 4.2: \<open>prev\<close> starts at midnight, paired with
  the candidate, the state of the last event; at each event, if \<open>prev \<le> t < event.time\<close>
  the answer is the candidate, otherwise the candidate becomes the state of the event and
  \<open>prev\<close> its time; after the walk the answer is the candidate.
\<close>

fun spec_walk :: "time \<Rightarrow> time \<Rightarrow> string \<Rightarrow> StateEvent list \<Rightarrow> string" where
  "spec_walk t prev candidate [] = candidate"
| "spec_walk t prev candidate (event # rest) =
     (if time_le prev t \<and> time_lt t (time event) then candidate
      else spec_walk t (time event) (state event) rest)"

definition spec_state_at :: "StateEvent list \<Rightarrow> time \<Rightarrow> string" where
  "spec_state_at events t =
     (if events = [] then STATE_OFF else spec_walk t MIDNIGHT (state (last events)) events)"

text \<open>The scenarios of the specification, section 8.\<close>

definition wrap_example :: "StateEvent list" where
  "wrap_example = [mk_event (mk_time 8 0 0 0) STATE_ON, mk_event (mk_time 20 0 0 0) STATE_OFF]"

definition single_example :: "StateEvent list" where
  "single_example = [mk_event (mk_time 12 0 0 0) STATE_ON]"

definition timer_example :: "StateEvent list" where
  "timer_example = [mk_event (mk_time 6 0 0 0) STATE_ON, mk_event (mk_time 18 0 0 0) STATE_OFF]"

text \<open>A host with no timer and no written state, and an entity holding a given timetable.\<close>

definition hass0 :: HomeAssistant where
  "hass0 = \<lparr>timers = [], next_handle = 0, written = []\<rparr>"

definition entity_with :: "StateEvent list \<Rightarrow> InputTimeTable" where
  "entity_with tt = (init Map.empty hass0)\<lparr>timetable := tt\<rparr>"

text \<open>
  A snapshot with two entries at the same time, as a corrupt restore would supply it, and
  the entity that has been added to the host with it.
\<close>

definition corrupt_snapshot :: "attr list" where
  "corrupt_snapshot =
     [[ATTR_TIME \<mapsto> ''08:00:00'', ATTR_STATE \<mapsto> ''off''],
      [ATTR_TIME \<mapsto> ''08:00:00'', ATTR_STATE \<mapsto> ''off'']]"

definition restored_corrupt :: InputTimeTable where
  "restored_corrupt =
     snd (async_added_to_hass (Some corrupt_snapshot) (combine 7 (mk_time 9 0 0 0))
       (combine 7 (mk_time 9 0 0 0)) (init Map.empty hass0))"

text \<open>
  At most one timer is outstanding, and it is the one whose handle the entity holds.
\<close>

definition timer_inv :: "InputTimeTable \<Rightarrow> bool" where
  "timer_inv self \<longleftrightarrow>
     (case timers (hass self) of
        [] \<Rightarrow> True
      | [tp] \<Rightarrow> event_unsub self = Some (fst tp)
      | _ \<Rightarrow> False)"

text \<open>
  An entity with a timer armed: created, then reconfigured at 09:00 of day 7 with events
  at 06:00 (on) and 18:00 (off).
\<close>

definition armed_entity :: InputTimeTable where
  "armed_entity =
     snd (call_service (SERVICE_RECONFIG [(mk_time 6 0 0 0, STATE_ON), (mk_time 18 0 0 0, STATE_OFF)])
       (combine 7 (mk_time 9 0 0 0)) (combine 7 (mk_time 9 0 0 0)) (init Map.empty hass0))"

section \<open>Properties\<close>

subsection \<open>What the scheduling leaves alone\<close>

lemma timetable_cancel_update: "timetable (cancel_update self) = timetable self"
  by (simp add: cancel_update_def split: option.splits)

lemma timetable_schedule_update: "timetable (schedule_update now self) = timetable self"
  by (simp add: schedule_update_def Let_def timetable_cancel_update split: prod.splits)

lemma timetable_update_state: "timetable (update_state now now_w self) = timetable self"
  by (simp add: update_state_def async_write_ha_state_def timetable_schedule_update)

subsection \<open>The loop of set\<close>

lemma set_loop_None: "set_loop tm st tt = None \<longleftrightarrow> tm \<notin> time ` set tt"
  by (induction tt) auto

lemma set_loop_times: "set_loop tm st tt = Some tt' \<Longrightarrow> map time tt' = map time tt"
  by (induction tt arbitrary: tt') (auto split: if_splits)

lemma set_loop_fixed:
  "tm \<in> time ` set tt \<Longrightarrow> \<forall>e \<in> set tt. time e = tm \<longrightarrow> state e = st \<Longrightarrow> set_loop tm st tt = Some tt"
  by (induction tt) auto

lemma set_loop_first:
  "tm \<in> time ` set tt \<Longrightarrow>
   set_loop tm st tt =
     Some (takeWhile (\<lambda>e. time e \<noteq> tm) tt @
           (hd (dropWhile (\<lambda>e. time e \<noteq> tm) tt))\<lparr>state := st\<rparr> # tl (dropWhile (\<lambda>e. time e \<noteq> tm) tt))"
  by (induction tt) auto

lemma set_loop_idem: "set_loop tm st tt = Some tt' \<Longrightarrow> set_loop tm st tt' = Some tt'"
  by (induction tt arbitrary: tt') (auto split: if_splits)

lemma set_timetable_idem: "set_timetable tm st (set_timetable tm st tt) = set_timetable tm st tt"
proof (cases "set_loop tm st tt")
  case None
  then have notin: "tm \<notin> time ` set tt" by (simp add: set_loop_None)
  let ?tt' = "sort_timetable (tt @ [mk_event tm st])"
  have "set_loop tm st ?tt' = Some ?tt'"
  proof (rule set_loop_fixed)
    show "tm \<in> time ` set ?tt'" by (simp add: sort_timetable_def mk_event_def)
    show "\<forall>e \<in> set ?tt'. time e = tm \<longrightarrow> state e = st"
      using notin by (auto simp: sort_timetable_def mk_event_def)
  qed
  with None show ?thesis by (simp add: set_timetable_def)
next
  case (Some tt')
  then show ?thesis by (simp add: set_timetable_def set_loop_idem)
qed

subsection \<open>Upsert idempotence\<close>

text \<open>
  C9. For every timetable (with unique times or not), every time and every state, a
  second \<^verbatim>\<open>set\<close> of the same time and state right after the first leaves the list of
  events as the first call left it, whatever the clock reads; and neither call raises.
\<close>

theorem set_twice_is_set_once:
  "fst (async_set tm st now now_w self) = None \<and>
   fst (async_set tm st now' now_w' (snd (async_set tm st now now_w self))) = None \<and>
   timetable (snd (async_set tm st now' now_w' (snd (async_set tm st now now_w self)))) =
     timetable (snd (async_set tm st now now_w self))"
  by (simp add: async_set_def timetable_update_state set_timetable_idem)

subsection \<open>The order of times\<close>

lemma not_time_lt: "\<not> time_lt a b \<longleftrightarrow> time_le b a"
  by (auto simp: time_lt_def time_le_def)

lemma time_le_trans: "time_le a b \<Longrightarrow> time_le b c \<Longrightarrow> time_le a c"
  by (auto simp: time_le_def)

lemma time_le_refl: "time_le a a"
  by (simp add: time_le_def)

lemma midnight_le: "time_le MIDNIGHT t"
  by (simp add: time_le_def MIDNIGHT_def mk_time_def time_key_def)

lemma ascending_nth:
  "ascending tt \<Longrightarrow> i \<le> j \<Longrightarrow> j < length tt \<Longrightarrow> time_le (time (tt ! i)) (time (tt ! j))"
  by (cases "i = j") (auto simp: ascending_def sorted_wrt_iff_nth_less time_le_refl)

lemmas time_eval =
  mk_event_def mk_time_def MIDNIGHT_def time_le_def time_lt_def time_key_def
  STATE_ON_def STATE_OFF_def

subsection \<open>The state at an instant\<close>

lemma state_loop_spec_walk:
  "state (state_loop t prev tt) = spec_walk t (time prev) (state prev) tt"
  by (induction tt arbitrary: prev) auto

text \<open>
  As \<open>prev\<close> is never after the instant, the loop stops at the first event after the
  instant, and answers with the event before it.
\<close>

lemma state_loop_takeWhile:
  "time_le (time prev) t \<Longrightarrow>
   state_loop t prev tt = last (prev # takeWhile (\<lambda>e. time_le (time e) t) tt)"
  by (induction tt arbitrary: prev) (auto simp: time_lt_def time_le_def not_less)

lemma state_property_spec: "state_property tt t = spec_state_at tt t"
  by (simp add: state_property_def spec_state_at_def state_loop_spec_walk mk_event_def)

lemma state_property_before_first:
  assumes "tt \<noteq> []" "time_lt t (time (hd tt))"
  shows "state_property tt t = state (last tt)"
proof -
  obtain e rest where tt: "tt = e # rest" using assms(1) by (cases tt) auto
  with assms(2) show ?thesis
    by (simp add: state_property_def mk_event_def midnight_le)
qed

lemma state_property_between:
  assumes asc: "ascending tt" and i: "Suc i < length tt"
    and le: "time_le (time (tt ! i)) t" and lt: "time_lt t (time (tt ! Suc i))"
  shows "state_property tt t = state (tt ! i)"
proof -
  let ?P = "\<lambda>e. time_le (time e) t"
  have "takeWhile ?P tt = take (Suc i) tt"
  proof (rule takeWhile_eq_take_P_nth)
    fix j assume "j < Suc i" "j < length tt"
    then have "time_le (time (tt ! j)) (time (tt ! i))"
      using ascending_nth [OF asc, of j i] i by simp
    then show "time_le (time (tt ! j)) t" using le by (rule time_le_trans)
  next
    show "\<not> time_le (time (tt ! Suc i)) t" using lt by (simp add: not_time_lt [symmetric])
  qed
  moreover have "last (take (Suc i) tt) = tt ! i"
    using i by (simp add: take_Suc_conv_app_nth)
  moreover have "take (Suc i) tt \<noteq> []" using i by auto
  moreover have "tt \<noteq> []" using i by auto
  ultimately show ?thesis
    by (simp add: state_property_def state_loop_takeWhile mk_event_def midnight_le)
qed

lemma state_property_after_last:
  assumes asc: "ascending tt" and ne: "tt \<noteq> []" and le: "time_le (time (last tt)) t"
  shows "state_property tt t = state (last tt)"
proof -
  have "\<forall>e \<in> set tt. time_le (time e) t"
  proof
    fix e assume "e \<in> set tt"
    then obtain j where j: "j < length tt" "tt ! j = e" by (auto simp: in_set_conv_nth)
    have "time_le (time (tt ! j)) (time (tt ! (length tt - 1)))"
      using j ne by (intro ascending_nth [OF asc]) auto
    then have "time_le (time e) (time (last tt))" using j ne by (simp add: last_conv_nth)
    then show "time_le (time e) t" using le by (rule time_le_trans)
  qed
  then have tw: "takeWhile (\<lambda>e. time_le (time e) t) tt = tt" by simp
  have "state_loop t (mk_event MIDNIGHT (state (last tt))) tt = last tt"
    using ne by (simp add: state_loop_takeWhile tw mk_event_def midnight_le)
  with ne show ?thesis
    by (simp add: state_property_def)
qed

text \<open>
  C1. The state of the empty timetable is off at every instant. For every timetable and
  instant the \<^verbatim>\<open>state\<close> property is the walk of the specification. On a timetable in
  ascending order that is not empty: an instant before the first event has the state of
  the last event (the wrap-around); an instant from one event on and before the next has
  the state of that event; an instant on or after the last event has the state of the
  last event. With events at 08:00 (on) and 20:00 (off) the state is off at 07:59:59, on
  at 08:00:00, on at 19:59:59 and off at 20:00:00; with the single event 12:00 (on) it
  is on at every instant.
\<close>

theorem state_at_instant:
  "state_property [] t = STATE_OFF \<and>
   state_property tt t = spec_state_at tt t \<and>
   (tt \<noteq> [] \<and> ascending tt \<longrightarrow>
      (time_lt t (time (hd tt)) \<longrightarrow> state_property tt t = state (last tt)) \<and>
      (\<forall>i. Suc i < length tt \<and> time_le (time (tt ! i)) t \<and> time_lt t (time (tt ! Suc i)) \<longrightarrow>
         state_property tt t = state (tt ! i)) \<and>
      (time_le (time (last tt)) t \<longrightarrow> state_property tt t = state (last tt))) \<and>
   state_property wrap_example (mk_time 7 59 59 0) = STATE_OFF \<and>
   state_property wrap_example (mk_time 8 0 0 0) = STATE_ON \<and>
   state_property wrap_example (mk_time 19 59 59 0) = STATE_ON \<and>
   state_property wrap_example (mk_time 20 0 0 0) = STATE_OFF \<and>
   state_property single_example t = STATE_ON"
proof -
  have "state_property [] t = STATE_OFF"
    by (simp add: state_property_def)
  moreover have "state_property wrap_example (mk_time 7 59 59 0) = STATE_OFF"
    by (simp add: state_property_def wrap_example_def time_eval)
  moreover have "state_property wrap_example (mk_time 8 0 0 0) = STATE_ON"
    by (simp add: state_property_def wrap_example_def time_eval)
  moreover have "state_property wrap_example (mk_time 19 59 59 0) = STATE_ON"
    by (simp add: state_property_def wrap_example_def time_eval)
  moreover have "state_property wrap_example (mk_time 20 0 0 0) = STATE_OFF"
    by (simp add: state_property_def wrap_example_def time_eval)
  moreover have "state_property single_example t = STATE_ON"
    by (simp add: state_property_def single_example_def mk_event_def)
  ultimately show ?thesis
    using state_property_spec state_property_before_first state_property_between
      state_property_after_last
    by blast
qed

theorem state_at_instant_witness:
  "wrap_example \<noteq> [] \<and> ascending wrap_example \<and>
   time_lt (mk_time 7 0 0 0) (time (hd wrap_example)) \<and>
   state_property wrap_example (mk_time 7 0 0 0) = state (last wrap_example) \<and>
   Suc 0 < length wrap_example \<and>
   time_le (time (wrap_example ! 0)) (mk_time 9 30 0 0) \<and>
   time_lt (mk_time 9 30 0 0) (time (wrap_example ! Suc 0)) \<and>
   state_property wrap_example (mk_time 9 30 0 0) = state (wrap_example ! 0) \<and>
   time_le (time (last wrap_example)) (mk_time 21 0 0 0) \<and>
   state_property wrap_example (mk_time 21 0 0 0) = state (last wrap_example)"
proof -
  have a: "wrap_example \<noteq> [] \<and> ascending wrap_example"
    by (simp add: wrap_example_def ascending_def time_eval)
  have b1: "time_lt (mk_time 7 0 0 0) (time (hd wrap_example))"
    by (simp add: wrap_example_def time_eval)
  have b2: "Suc 0 < length wrap_example \<and> time_le (time (wrap_example ! 0)) (mk_time 9 30 0 0) \<and>
      time_lt (mk_time 9 30 0 0) (time (wrap_example ! Suc 0))"
    by (simp add: wrap_example_def time_eval)
  have b3: "time_le (time (last wrap_example)) (mk_time 21 0 0 0)"
    by (simp add: wrap_example_def time_eval)
  have c1: "state_property wrap_example (mk_time 7 0 0 0) = state (last wrap_example)"
    using state_at_instant [where tt = wrap_example and t = "mk_time 7 0 0 0"] a b1 by blast
  have c2: "state_property wrap_example (mk_time 9 30 0 0) = state (wrap_example ! 0)"
    using state_at_instant [where tt = wrap_example and t = "mk_time 9 30 0 0"] a b2 by blast
  have c3: "state_property wrap_example (mk_time 21 0 0 0) = state (last wrap_example)"
    using state_at_instant [where tt = wrap_example and t = "mk_time 21 0 0 0"] a b3 by blast
  show ?thesis
    using a b1 b2 b3 c1 c2 c3 by blast
qed

subsection \<open>The next transition\<close>

text \<open>
  As \<open>prev\<close> is never after the current time, the loop of \<^verbatim>\<open>_schedule_update\<close> finds
  the first event of the list that is strictly after it.
\<close>

lemma next_change_loop_find:
  "time_le prev tm \<Longrightarrow>
   next_change_loop today tm prev tt =
     map_option (\<lambda>e. combine today (time e)) (find (\<lambda>e. time_lt tm (time e)) tt)"
  by (induction tt arbitrary: prev) (auto simp: time_lt_def time_le_def not_less)

lemma next_change_find:
  "next_change now tt =
     (case find (\<lambda>e. time_lt (dt_time now) (time e)) tt of
        Some e \<Rightarrow> combine (dt_date now) (time e)
      | None \<Rightarrow> combine (dt_date now + 1) (time (tt ! 0)))"
  by (simp add: next_change_def next_change_loop_find midnight_le split: option.splits)

lemma next_change_tomorrow:
  assumes "tt \<noteq> []" "\<forall>e \<in> set tt. \<not> time_lt (dt_time now) (time e)"
  shows "next_change now tt = combine (dt_date now + 1) (time (hd tt))"
proof -
  have "find (\<lambda>e. time_lt (dt_time now) (time e)) tt = None"
    using assms(2) by (simp add: find_None_iff)
  then show ?thesis using assms(1) by (simp add: next_change_find hd_conv_nth)
qed

lemma next_change_today:
  assumes asc: "ascending tt" and ex: "\<exists>e \<in> set tt. time_lt (dt_time now) (time e)"
  shows "dt_date (next_change now tt) = dt_date now \<and>
     dt_time (next_change now tt) \<in> time ` set tt \<and>
     time_lt (dt_time now) (dt_time (next_change now tt)) \<and>
     (\<forall>e \<in> set tt. time_lt (dt_time now) (time e) \<longrightarrow>
        time_le (dt_time (next_change now tt)) (time e))"
proof -
  let ?P = "\<lambda>e. time_lt (dt_time now) (time e)"
  from ex obtain x where x: "find ?P tt = Some x"
    by (cases "find ?P tt") (auto simp: find_None_iff)
  then obtain i where i: "i < length tt" "?P (tt ! i)" "x = tt ! i" "\<forall>j<i. \<not> ?P (tt ! j)"
    by (auto simp: find_Some_iff)
  have nc: "next_change now tt = combine (dt_date now) (time x)"
    using x by (simp add: next_change_find)
  have "\<forall>e \<in> set tt. ?P e \<longrightarrow> time_le (time x) (time e)"
  proof (intro ballI impI)
    fix e assume "e \<in> set tt" "?P e"
    then obtain k where k: "k < length tt" "tt ! k = e" by (auto simp: in_set_conv_nth)
    with \<open>?P e\<close> i(4) have "i \<le> k" by (metis not_le)
    then show "time_le (time x) (time e)"
      using ascending_nth [OF asc, of i k] k i(3) by simp
  qed
  moreover have "x \<in> set tt" using i by simp
  ultimately show ?thesis using nc i by (simp add: combine_def)
qed

lemma schedule_update_few:
  assumes "length (timetable self) < 2"
  shows "event_unsub (schedule_update now self) = None \<and>
     next_handle (hass (schedule_update now self)) = next_handle (hass self) \<and>
     timers (hass (schedule_update now self)) =
       (case event_unsub self of
          None \<Rightarrow> timers (hass self)
        | Some h \<Rightarrow> filter (\<lambda>tp. fst tp \<noteq> h) (timers (hass self)))"
proof -
  have "timetable self = [] \<or> length (timetable self) = 1"
    using assms by (cases "timetable self") auto
  then have "schedule_update now self = cancel_update self"
    by (auto simp add: schedule_update_def Let_def timetable_cancel_update)
  then show ?thesis
    by (simp add: cancel_update_def unsub_def split: option.splits)
qed

lemma schedule_update_many:
  assumes "2 \<le> length (timetable self)"
  shows "event_unsub (schedule_update now self) = Some (next_handle (hass self)) \<and>
     timers (hass (schedule_update now self)) =
       (case event_unsub self of
          None \<Rightarrow> timers (hass self)
        | Some h \<Rightarrow> filter (\<lambda>tp. fst tp \<noteq> h) (timers (hass self))) @
       [(next_handle (hass self), next_change now (timetable self))]"
proof -
  have "\<not> (timetable self = [] \<or> length (timetable self) = 1)" using assms by auto
  then show ?thesis
    by (simp add: schedule_update_def Let_def timetable_cancel_update async_track_point_in_time_def)
       (simp add: cancel_update_def unsub_def split: option.splits)
qed

text \<open>
  C2. With fewer than two events \<^verbatim>\<open>_schedule_update\<close> arms no timer: the entity
  holds none afterwards, the timer it held is cancelled and the host has armed nothing.
  With two events or more it cancels the timer it held and arms one, which it holds, at
  the point \<open>next_change\<close>. That point is tomorrow at the time of the first event when
  no event is strictly after the current time of day; on a timetable in ascending order
  with such an event it is today, at the time of an event strictly after the current
  time and not later than any other event strictly after it. With events at 06:00 (on)
  and 18:00 (off), at 09:00 the point is today 18:00 and at 19:00 tomorrow 06:00.
\<close>

theorem next_transition_scheduling:
  "(length (timetable self) < 2 \<longrightarrow>
      event_unsub (schedule_update now self) = None \<and>
      next_handle (hass (schedule_update now self)) = next_handle (hass self) \<and>
      timers (hass (schedule_update now self)) =
        (case event_unsub self of
           None \<Rightarrow> timers (hass self)
         | Some h \<Rightarrow> filter (\<lambda>tp. fst tp \<noteq> h) (timers (hass self)))) \<and>
   (2 \<le> length (timetable self) \<longrightarrow>
      event_unsub (schedule_update now self) = Some (next_handle (hass self)) \<and>
      timers (hass (schedule_update now self)) =
        (case event_unsub self of
           None \<Rightarrow> timers (hass self)
         | Some h \<Rightarrow> filter (\<lambda>tp. fst tp \<noteq> h) (timers (hass self))) @
        [(next_handle (hass self), next_change now (timetable self))]) \<and>
   (tt \<noteq> [] \<and> (\<forall>e \<in> set tt. \<not> time_lt (dt_time now) (time e)) \<longrightarrow>
      next_change now tt = combine (dt_date now + 1) (time (hd tt))) \<and>
   (ascending tt \<and> (\<exists>e \<in> set tt. time_lt (dt_time now) (time e)) \<longrightarrow>
      dt_date (next_change now tt) = dt_date now \<and>
      dt_time (next_change now tt) \<in> time ` set tt \<and>
      time_lt (dt_time now) (dt_time (next_change now tt)) \<and>
      (\<forall>e \<in> set tt. time_lt (dt_time now) (time e) \<longrightarrow>
         time_le (dt_time (next_change now tt)) (time e))) \<and>
   next_change (combine d (mk_time 9 0 0 0)) timer_example = combine d (mk_time 18 0 0 0) \<and>
   next_change (combine d (mk_time 19 0 0 0)) timer_example = combine (d + 1) (mk_time 6 0 0 0)"
proof -
  have "next_change (combine d (mk_time 9 0 0 0)) timer_example = combine d (mk_time 18 0 0 0)"
    by (simp add: next_change_def timer_example_def combine_def time_eval)
  moreover have
    "next_change (combine d (mk_time 19 0 0 0)) timer_example = combine (d + 1) (mk_time 6 0 0 0)"
    by (simp add: next_change_def timer_example_def combine_def time_eval)
  moreover note schedule_update_few [of self now] schedule_update_many [of self now]
    next_change_tomorrow [of tt now] next_change_today [of tt now]
  ultimately show ?thesis by blast
qed

theorem next_transition_scheduling_witness:
  "length (timetable (entity_with single_example)) < 2 \<and>
   event_unsub (schedule_update (combine 7 (mk_time 9 0 0 0)) (entity_with single_example)) = None \<and>
   timers (hass (schedule_update (combine 7 (mk_time 9 0 0 0)) (entity_with single_example))) = [] \<and>
   2 \<le> length (timetable (entity_with timer_example)) \<and>
   timers (hass (schedule_update (combine 7 (mk_time 9 0 0 0)) (entity_with timer_example))) =
     [(0, combine 7 (mk_time 18 0 0 0))] \<and>
   timers (hass (schedule_update (combine 7 (mk_time 19 0 0 0)) (entity_with timer_example))) =
     [(0, combine 8 (mk_time 6 0 0 0))] \<and>
   ascending timer_example \<and>
   dt_date (next_change (combine 7 (mk_time 9 0 0 0)) timer_example) = 7 \<and>
   next_change (combine 7 (mk_time 19 0 0 0)) timer_example = combine 8 (time (hd timer_example))"
proof -
  let ?n9 = "combine 7 (mk_time 9 0 0 0)" and ?n19 = "combine 7 (mk_time 19 0 0 0)"
  have few: "length (timetable (entity_with single_example)) < 2"
    by (simp add: entity_with_def single_example_def)
  have many: "2 \<le> length (timetable (entity_with timer_example))"
    by (simp add: entity_with_def timer_example_def)
  have asc: "ascending timer_example"
    by (simp add: timer_example_def ascending_def time_eval)
  have ahead: "\<exists>e \<in> set timer_example. time_lt (dt_time ?n9) (time e)"
    by (simp add: timer_example_def combine_def time_eval)
  have passed: "timer_example \<noteq> [] \<and> (\<forall>e \<in> set timer_example. \<not> time_lt (dt_time ?n19) (time e))"
    by (simp add: timer_example_def combine_def time_eval)
  have fields: "event_unsub (entity_with tt) = None" "timers (hass (entity_with tt)) = []"
    "next_handle (hass (entity_with tt)) = 0" "timetable (entity_with tt) = tt" for tt
    by (simp_all add: entity_with_def init_def hass0_def)
  have r1: "event_unsub (schedule_update ?n9 (entity_with single_example)) = None \<and>
      timers (hass (schedule_update ?n9 (entity_with single_example))) = []"
    using next_transition_scheduling [where self = "entity_with single_example" and now = ?n9] few
    by (simp add: fields)
  have r2: "timers (hass (schedule_update ?n9 (entity_with timer_example))) =
      [(0, combine 7 (mk_time 18 0 0 0))]"
    using next_transition_scheduling [where self = "entity_with timer_example" and now = ?n9
        and d = 7] many
    by (simp add: fields)
  have r3: "timers (hass (schedule_update ?n19 (entity_with timer_example))) =
      [(0, combine 8 (mk_time 6 0 0 0))]"
    using next_transition_scheduling [where self = "entity_with timer_example" and now = ?n19
        and d = 7] many
    by (simp add: fields)
  have "dt_date (next_change ?n9 timer_example) = dt_date ?n9"
    using next_transition_scheduling [where tt = timer_example and now = ?n9] asc ahead
    by blast
  then have r4: "dt_date (next_change ?n9 timer_example) = 7"
    by (simp add: combine_def)
  have "next_change ?n19 timer_example = combine (dt_date ?n19 + 1) (time (hd timer_example))"
    using next_transition_scheduling [where tt = timer_example and now = ?n19] passed
    by blast
  then have r5: "next_change ?n19 timer_example = combine 8 (time (hd timer_example))"
    by (simp add: combine_def)
  show ?thesis
    using few many asc r1 r2 r3 r4 r5 by blast
qed

subsection \<open>Strictly ascending timetables\<close>

lemma time_key_inj: "time_key a = time_key b \<longleftrightarrow> a = b"
  by (auto simp: time_key_def)

lemma strictly_ascending_keys:
  "strictly_ascending tt \<longleftrightarrow> sorted_wrt (<) (map time_key (map time tt))"
  by (simp add: strictly_ascending_def sorted_wrt_map time_lt_def)

lemma strictly_ascending_iff:
  "strictly_ascending tt \<longleftrightarrow>
     sorted (map (\<lambda>e. time_key (time e)) tt) \<and> distinct (map time tt)"
proof -
  have "distinct (map time_key (map time tt)) = distinct (map time tt)"
    by (auto simp: distinct_map inj_on_def time_key_inj)
  then show ?thesis
    by (simp add: strictly_ascending_keys strict_sorted_iff comp_def)
qed

lemma strictly_ascending_imp_ascending: "strictly_ascending tt \<Longrightarrow> ascending tt"
  unfolding strictly_ascending_def ascending_def
  by (erule sorted_wrt_mono_rel [rotated]) (auto simp: time_lt_def time_le_def)

lemma strictly_ascending_sort:
  "distinct (map time tt) \<Longrightarrow> strictly_ascending (sort_timetable tt)"
proof -
  assume d: "distinct (map time tt)"
  have "distinct (map time (sort_timetable tt))"
    using d by (simp add: sort_timetable_def distinct_map)
  then show ?thesis
    by (simp add: strictly_ascending_iff) (simp add: sort_timetable_def sorted_sort_key)
qed

lemma strictly_ascending_set_timetable:
  assumes "strictly_ascending tt"
  shows "strictly_ascending (set_timetable tm st tt)"
proof (cases "set_loop tm st tt")
  case None
  then have "tm \<notin> time ` set tt" by (simp add: set_loop_None)
  moreover have "distinct (map time tt)" using assms by (simp add: strictly_ascending_iff)
  ultimately have "distinct (map time (tt @ [mk_event tm st]))"
    by (simp add: mk_event_def)
  then show ?thesis using None by (simp add: set_timetable_def strictly_ascending_sort)
next
  case (Some tt')
  then have "map time tt' = map time tt" by (rule set_loop_times)
  then show ?thesis using assms Some by (simp add: set_timetable_def strictly_ascending_keys)
qed

lemma unset_loop_None: "unset_loop tm tt = None \<longleftrightarrow> tm \<notin> time ` set tt"
  by (induction tt) auto

lemma unset_loop_first:
  "tm \<in> time ` set tt \<Longrightarrow>
   unset_loop tm tt =
     Some (takeWhile (\<lambda>e. time e \<noteq> tm) tt @ tl (dropWhile (\<lambda>e. time e \<noteq> tm) tt))"
  by (induction tt) auto

lemma strictly_ascending_remove:
  "strictly_ascending tt \<Longrightarrow>
   strictly_ascending (takeWhile (\<lambda>e. time e \<noteq> tm) tt @ tl (dropWhile (\<lambda>e. time e \<noteq> tm) tt))"
proof -
  assume a: "strictly_ascending tt"
  let ?ys = "takeWhile (\<lambda>e. time e \<noteq> tm) tt" and ?zs = "dropWhile (\<lambda>e. time e \<noteq> tm) tt"
  have "tt = ?ys @ ?zs" by simp
  then have s: "sorted_wrt (\<lambda>a b. time_lt (time a) (time b)) (?ys @ ?zs)"
    using a by (simp add: strictly_ascending_def)
  show ?thesis
  proof (cases ?zs)
    case Nil
    have "?ys @ tl ?zs = ?ys @ ?zs" unfolding Nil by simp
    also have "\<dots> = tt" by (rule takeWhile_dropWhile_id)
    finally have e: "?ys @ tl ?zs = tt" .
    show ?thesis unfolding e by (rule a)
  next
    case (Cons z zs')
    with s show ?thesis by (auto simp: strictly_ascending_def sorted_wrt_append)
  qed
qed

lemma removed_time_gone_distinct:
  "distinct (map time tt) \<Longrightarrow>
   tm \<notin> time ` set (takeWhile (\<lambda>e. time e \<noteq> tm) tt @ tl (dropWhile (\<lambda>e. time e \<noteq> tm) tt))"
  by (induction tt) auto

lemma removed_time_gone:
  "strictly_ascending tt \<Longrightarrow>
   tm \<notin> time ` set (takeWhile (\<lambda>e. time e \<noteq> tm) tt @ tl (dropWhile (\<lambda>e. time e \<noteq> tm) tt))"
  by (rule removed_time_gone_distinct) (simp add: strictly_ascending_iff)

lemma length_gt_card_iff: "length xs > card (set xs) \<longleftrightarrow> \<not> distinct xs"
proof (cases "distinct xs")
  case True
  then show ?thesis by (simp add: distinct_card)
next
  case False
  then have "card (set xs) \<noteq> length xs" using card_distinct [of xs] by blast
  with card_length [of xs] False show ?thesis by linarith
qed

subsection \<open>What an update writes\<close>

lemma written_cancel_update: "written (hass (cancel_update self)) = written (hass self)"
  by (simp add: cancel_update_def unsub_def split: option.splits)

lemma written_schedule_update: "written (hass (schedule_update now self)) = written (hass self)"
  by (simp add: schedule_update_def Let_def written_cancel_update async_track_point_in_time_def)

lemma editable_schedule_update: "editable (schedule_update now self) = editable self"
  by (simp add: schedule_update_def Let_def cancel_update_def async_track_point_in_time_def
      split: option.splits)

lemma config_schedule_update: "config (schedule_update now self) = config self"
  by (simp add: schedule_update_def Let_def cancel_update_def async_track_point_in_time_def
      split: option.splits)

lemma written_update_state:
  "written (hass (update_state now now_w self)) =
     written (hass self) @
     [(state_property (timetable self) (dt_time now_w),
       (editable self, timetable_to_attribute (timetable self)))]"
  by (simp add: update_state_def async_write_ha_state_def written_schedule_update
      state_attributes_def editable_schedule_update timetable_schedule_update)

lemma timers_update_state:
  "timers (hass (update_state now now_w self)) = timers (hass (schedule_update now self))"
  "event_unsub (update_state now now_w self) = event_unsub (schedule_update now self)"
  "editable (update_state now now_w self) = editable self"
  "config (update_state now now_w self) = config self"
  by (simp_all add: update_state_def async_write_ha_state_def editable_schedule_update
      config_schedule_update)

lemma schedule_update_config:
  "timers (hass (schedule_update now (self\<lparr>config := cfg\<rparr>))) = timers (hass (schedule_update now self))"
  "event_unsub (schedule_update now (self\<lparr>config := cfg\<rparr>)) = event_unsub (schedule_update now self)"
  by (simp_all add: schedule_update_def Let_def cancel_update_def async_track_point_in_time_def
      split: option.splits)

subsection \<open>The mutations keep the order\<close>

lemma ascending_keys: "ascending tt \<longleftrightarrow> sorted (map (\<lambda>e. time_key (time e)) tt)"
  by (simp add: ascending_def sorted_wrt_map time_le_def)

lemma strictly_ascending_iff_ascending:
  "strictly_ascending tt \<longleftrightarrow> ascending tt \<and> distinct (map time tt)"
  by (simp add: strictly_ascending_iff ascending_keys)

lemma strictly_ascending_unset:
  assumes "strictly_ascending (timetable self)"
  shows "strictly_ascending (timetable (snd (async_unset tm now now_w self)))"
proof (cases "tm \<in> time ` set (timetable self)")
  case True
  then show ?thesis
    using assms
    by (simp add: async_unset_def unset_loop_first timetable_update_state strictly_ascending_remove)
next
  case False
  then have "unset_loop tm (timetable self) = None" by (simp add: unset_loop_None)
  then show ?thesis using assms by (simp add: async_unset_def)
qed

lemma reconfig_guard: "length xs > card (set (map f xs)) \<longleftrightarrow> \<not> distinct (map f xs)"
  using length_gt_card_iff [of "map f xs"] by (simp only: length_map)

lemma async_reconfig_cases:
  "async_reconfig tt_new now now_w self =
     (if distinct (map fst tt_new) then
        (None,
         update_state now now_w
           (self\<lparr>timetable := sort_timetable (map (\<lambda>event. mk_event (fst event) (snd event)) tt_new)\<rparr>))
      else (Some (Invalid ''The same time is not allowed more than once''), self))"
  unfolding async_reconfig_def reconfig_guard by simp

lemma strictly_ascending_reconfig_ok:
  assumes "distinct (map fst tt_new)"
  shows "strictly_ascending (sort_timetable (map (\<lambda>event. mk_event (fst event) (snd event)) tt_new))"
proof -
  have eq: "map time (map (\<lambda>event. mk_event (fst event) (snd event)) tt_new) = map fst tt_new"
    by (induction tt_new) (simp_all add: mk_event_def)
  have "distinct (map time (map (\<lambda>event. mk_event (fst event) (snd event)) tt_new))"
    unfolding eq by (rule assms)
  then show ?thesis by (rule strictly_ascending_sort)
qed

lemma strictly_ascending_reconfig:
  assumes "strictly_ascending (timetable self)"
  shows "strictly_ascending (timetable (snd (async_reconfig tt_new now now_w self)))"
  using assms
  by (simp add: async_reconfig_cases timetable_update_state strictly_ascending_reconfig_ok)

lemma strictly_ascending_set:
  "strictly_ascending (timetable self) \<Longrightarrow>
   strictly_ascending (timetable (snd (async_set tm st now now_w self)))"
  by (simp add: async_set_def timetable_update_state strictly_ascending_set_timetable)

lemma strictly_ascending_reset:
  "strictly_ascending (timetable (snd (async_reset now now_w self)))"
  by (simp add: async_reset_def timetable_update_state strictly_ascending_def)

lemma strictly_ascending_call_service:
  "strictly_ascending (timetable self) \<Longrightarrow>
   strictly_ascending (timetable (snd (call_service c now now_w self)))"
  by (cases c)
    (simp_all add: strictly_ascending_set strictly_ascending_unset strictly_ascending_reset
      strictly_ascending_reconfig)

lemma strictly_ascending_call_services:
  "strictly_ascending (timetable self) \<Longrightarrow> strictly_ascending (timetable (call_services cs self))"
  by (induction cs arbitrary: self) (auto simp: strictly_ascending_call_service)

text \<open>
  C3. From a timetable that is strictly ascending by time, every sequence of service
  calls (\<^verbatim>\<open>set\<close>, \<^verbatim>\<open>unset\<close>, \<^verbatim>\<open>reset\<close>, \<^verbatim>\<open>reconfig\<close>, failing or not) and each
  single \<^verbatim>\<open>set\<close>, \<^verbatim>\<open>unset\<close> and \<^verbatim>\<open>reconfig\<close> leaves a timetable that is strictly
  ascending by time; after \<^verbatim>\<open>reset\<close> it is so in any case. Strictly ascending is:
  ascending, and no two events at the same time.
\<close>

theorem sort_uniqueness_invariant:
  "(strictly_ascending (timetable self) \<longrightarrow>
      strictly_ascending (timetable (call_services cs self)) \<and>
      strictly_ascending (timetable (snd (async_set tm st now now_w self))) \<and>
      strictly_ascending (timetable (snd (async_unset tm now now_w self))) \<and>
      strictly_ascending (timetable (snd (async_reconfig tt_new now now_w self)))) \<and>
   strictly_ascending (timetable (snd (async_reset now now_w self))) \<and>
   (strictly_ascending tt \<longleftrightarrow> ascending tt \<and> distinct (map time tt))"
  using strictly_ascending_call_services [of self cs] strictly_ascending_set [of self tm st now now_w]
    strictly_ascending_unset [of self tm now now_w] strictly_ascending_reconfig [of self tt_new now now_w]
    strictly_ascending_reset [of now now_w self] strictly_ascending_iff_ascending [of tt]
  by blast

theorem sort_uniqueness_invariant_witness:
  "strictly_ascending (timetable (entity_with wrap_example)) \<and>
   strictly_ascending (timetable (call_services
     [(SERVICE_SET (mk_time 12 0 0 0) STATE_ON, combine 7 (mk_time 9 0 0 0), combine 7 (mk_time 9 0 0 0)),
      (SERVICE_SET (mk_time 8 0 0 0) STATE_OFF, combine 7 (mk_time 9 0 0 0), combine 7 (mk_time 9 0 0 0)),
      (SERVICE_UNSET (mk_time 20 0 0 0), combine 7 (mk_time 9 0 0 0), combine 7 (mk_time 9 0 0 0))]
     (entity_with wrap_example)))"
proof -
  have h: "strictly_ascending (timetable (entity_with wrap_example))"
    by (simp add: entity_with_def wrap_example_def strictly_ascending_def time_eval)
  then show ?thesis
    using sort_uniqueness_invariant [where self = "entity_with wrap_example"] by blast
qed

subsection \<open>Reconfiguration\<close>

text \<open>
  C4. When two entries of the input share a time, \<^verbatim>\<open>reconfig\<close> raises
  \<^verbatim>\<open>Invalid\<close> (the duplicate-time error) and the entity, its timetable included, is as
  before. When the times of the input are distinct, it does not raise and the timetable
  becomes the events of the input sorted by time: the same events, as many, strictly
  ascending.
\<close>

theorem reconfig_atomic:
  "(\<not> distinct (map fst tt_new) \<longrightarrow>
      async_reconfig tt_new now now_w self =
        (Some (Invalid ''The same time is not allowed more than once''), self)) \<and>
   (distinct (map fst tt_new) \<longrightarrow>
      fst (async_reconfig tt_new now now_w self) = None \<and>
      timetable (snd (async_reconfig tt_new now now_w self)) =
        sort_timetable (map (\<lambda>event. mk_event (fst event) (snd event)) tt_new) \<and>
      set (timetable (snd (async_reconfig tt_new now now_w self))) =
        (\<lambda>event. mk_event (fst event) (snd event)) ` set tt_new \<and>
      length (timetable (snd (async_reconfig tt_new now now_w self))) = length tt_new \<and>
      strictly_ascending (timetable (snd (async_reconfig tt_new now now_w self))))"
  by (simp add: async_reconfig_cases timetable_update_state strictly_ascending_reconfig_ok)
    (simp add: sort_timetable_def)

theorem reconfig_atomic_witness:
  "\<not> distinct (map fst [(mk_time 8 0 0 0, STATE_ON), (mk_time 8 0 0 0, STATE_OFF)]) \<and>
   async_reconfig [(mk_time 8 0 0 0, STATE_ON), (mk_time 8 0 0 0, STATE_OFF)]
       (combine 7 (mk_time 9 0 0 0)) (combine 7 (mk_time 9 0 0 0)) (entity_with wrap_example) =
     (Some (Invalid ''The same time is not allowed more than once''), entity_with wrap_example) \<and>
   distinct (map fst [(mk_time 18 0 0 0, STATE_OFF), (mk_time 6 0 0 0, STATE_ON)]) \<and>
   timetable (snd (async_reconfig [(mk_time 18 0 0 0, STATE_OFF), (mk_time 6 0 0 0, STATE_ON)]
       (combine 7 (mk_time 9 0 0 0)) (combine 7 (mk_time 9 0 0 0)) (entity_with wrap_example))) =
     timer_example"
proof -
  have d1: "\<not> distinct (map fst [(mk_time 8 0 0 0, STATE_ON), (mk_time 8 0 0 0, STATE_OFF)])"
    by simp
  have d2: "distinct (map fst [(mk_time 18 0 0 0, STATE_OFF), (mk_time 6 0 0 0, STATE_ON)])"
    by (simp add: mk_time_def)
  have s: "sort_timetable (map (\<lambda>event. mk_event (fst event) (snd event))
      [(mk_time 18 0 0 0, STATE_OFF), (mk_time 6 0 0 0, STATE_ON)]) = timer_example"
    by (simp add: sort_timetable_def timer_example_def time_eval)
  show ?thesis
    using reconfig_atomic [where tt_new = "[(mk_time 8 0 0 0, STATE_ON), (mk_time 8 0 0 0, STATE_OFF)]"
        and self = "entity_with wrap_example" and now = "combine 7 (mk_time 9 0 0 0)"
        and now_w = "combine 7 (mk_time 9 0 0 0)"]
      reconfig_atomic [where tt_new = "[(mk_time 18 0 0 0, STATE_OFF), (mk_time 6 0 0 0, STATE_ON)]"
        and self = "entity_with wrap_example" and now = "combine 7 (mk_time 9 0 0 0)"
        and now_w = "combine 7 (mk_time 9 0 0 0)"]
      d1 d2 s
    by metis
qed

subsection \<open>Unset\<close>

text \<open>
  C5. When no event is at the time, \<^verbatim>\<open>unset\<close> raises \<^verbatim>\<open>Invalid\<close> (the not-found
  error) and the entity is as before: the same list of events, and, the host being part
  of it, no state written and no timer cancelled or armed. When an event is at the time,
  \<^verbatim>\<open>unset\<close> does not raise, the first event at that time is removed (on a strictly
  ascending timetable no event at that time is left), the timer is rescheduled for the
  new timetable and its state is written.
\<close>

theorem unset_failure_is_pure:
  "(tm \<notin> time ` set (timetable self) \<longrightarrow>
      async_unset tm now now_w self =
        (Some (Invalid (''The time '' @ isoformat tm @ '' doesn'' @ [CHR 0x27] @ ''t exist'')), self)) \<and>
   (tm \<in> time ` set (timetable self) \<longrightarrow>
      fst (async_unset tm now now_w self) = None \<and>
      timetable (snd (async_unset tm now now_w self)) =
        takeWhile (\<lambda>e. time e \<noteq> tm) (timetable self) @
        tl (dropWhile (\<lambda>e. time e \<noteq> tm) (timetable self)) \<and>
      (strictly_ascending (timetable self) \<longrightarrow>
         tm \<notin> time ` set (timetable (snd (async_unset tm now now_w self)))) \<and>
      snd (async_unset tm now now_w self) =
        async_write_ha_state now_w (schedule_update now
          (self\<lparr>timetable := timetable (snd (async_unset tm now now_w self))\<rparr>)) \<and>
      written (hass (snd (async_unset tm now now_w self))) =
        written (hass self) @
        [(state_property (timetable (snd (async_unset tm now now_w self))) (dt_time now_w),
          (editable self, timetable_to_attribute (timetable (snd (async_unset tm now now_w self)))))])"
proof (cases "tm \<in> time ` set (timetable self)")
  case False
  then have "unset_loop tm (timetable self) = None" by (simp add: unset_loop_None)
  with False show ?thesis by (simp add: async_unset_def)
next
  case True
  let ?tt' = "takeWhile (\<lambda>e. time e \<noteq> tm) (timetable self) @
      tl (dropWhile (\<lambda>e. time e \<noteq> tm) (timetable self))"
  have r: "async_unset tm now now_w self = (None, update_state now now_w (self\<lparr>timetable := ?tt'\<rparr>))"
    using True by (simp add: async_unset_def unset_loop_first)
  have t: "timetable (snd (async_unset tm now now_w self)) = ?tt'"
    by (simp add: r timetable_update_state)
  have g: "strictly_ascending (timetable self) \<longrightarrow> tm \<notin> time ` set ?tt'"
    using removed_time_gone [of "timetable self" tm] by blast
  have u: "snd (async_unset tm now now_w self) =
      async_write_ha_state now_w (schedule_update now (self\<lparr>timetable := ?tt'\<rparr>))"
    by (simp add: r update_state_def)
  have w: "written (hass (snd (async_unset tm now now_w self))) =
      written (hass self) @
      [(state_property ?tt' (dt_time now_w), (editable self, timetable_to_attribute ?tt'))]"
    by (simp add: r written_update_state)
  show ?thesis
    using True r g u w unfolding t by simp
qed

theorem unset_failure_is_pure_witness:
  "mk_time 12 0 0 0 \<notin> time ` set (timetable (entity_with wrap_example)) \<and>
   async_unset (mk_time 12 0 0 0) (combine 7 (mk_time 9 0 0 0)) (combine 7 (mk_time 9 0 0 0))
       (entity_with wrap_example) =
     (Some (Invalid ''The time 12:00:00 doesn't exist''), entity_with wrap_example) \<and>
   mk_time 8 0 0 0 \<in> time ` set (timetable (entity_with wrap_example)) \<and>
   strictly_ascending (timetable (entity_with wrap_example)) \<and>
   fst (async_unset (mk_time 8 0 0 0) (combine 7 (mk_time 9 0 0 0)) (combine 7 (mk_time 9 0 0 0))
       (entity_with wrap_example)) = None \<and>
   timetable (snd (async_unset (mk_time 8 0 0 0) (combine 7 (mk_time 9 0 0 0))
       (combine 7 (mk_time 9 0 0 0)) (entity_with wrap_example))) =
     [mk_event (mk_time 20 0 0 0) STATE_OFF]"
proof -
  let ?n = "combine 7 (mk_time 9 0 0 0)"
  have tt: "timetable (entity_with x) = x" for x
    by (simp add: entity_with_def)
  have a: "mk_time 12 0 0 0 \<notin> time ` set (timetable (entity_with wrap_example))"
    by (simp add: tt wrap_example_def mk_event_def mk_time_def)
  have b: "mk_time 8 0 0 0 \<in> time ` set (timetable (entity_with wrap_example))"
    by (simp add: tt wrap_example_def mk_event_def mk_time_def)
  have c: "strictly_ascending (timetable (entity_with wrap_example))"
    by (simp add: tt wrap_example_def strictly_ascending_def time_eval)
  have m: "''The time '' @ isoformat (mk_time 12 0 0 0) @ '' doesn'' @ [CHR 0x27] @ ''t exist'' =
      ''The time 12:00:00 doesn't exist''"
    by code_simp
  have r: "takeWhile (\<lambda>e. time e \<noteq> mk_time 8 0 0 0) (timetable (entity_with wrap_example)) @
      tl (dropWhile (\<lambda>e. time e \<noteq> mk_time 8 0 0 0) (timetable (entity_with wrap_example))) =
      [mk_event (mk_time 20 0 0 0) STATE_OFF]"
    by (simp add: tt wrap_example_def mk_event_def mk_time_def)
  have f: "async_unset (mk_time 12 0 0 0) ?n ?n (entity_with wrap_example) =
     (Some (Invalid ''The time 12:00:00 doesn't exist''), entity_with wrap_example)"
    using unset_failure_is_pure [where tm = "mk_time 12 0 0 0" and self = "entity_with wrap_example"
        and now = ?n and now_w = ?n] a
    unfolding m by blast
  have s: "fst (async_unset (mk_time 8 0 0 0) ?n ?n (entity_with wrap_example)) = None \<and>
      timetable (snd (async_unset (mk_time 8 0 0 0) ?n ?n (entity_with wrap_example))) =
        [mk_event (mk_time 20 0 0 0) STATE_OFF]"
    using unset_failure_is_pure [where tm = "mk_time 8 0 0 0" and self = "entity_with wrap_example"
        and now = ?n and now_w = ?n] b
    unfolding r by blast
  show ?thesis using a b c f s by blast
qed

subsection \<open>Update of the configuration\<close>

text \<open>
  C10. \<^verbatim>\<open>async_update_config\<close> does not raise; it replaces the configuration by the
  new one and leaves the timetable and the \<open>editable\<close> flag as they are; it reschedules
  the timer as \<^verbatim>\<open>_schedule_update\<close> does for the unchanged timetable, and writes the
  state of that timetable once.
\<close>

theorem update_config_frame:
  "fst (async_update_config cfg now now_w self) = None \<and>
   timetable (snd (async_update_config cfg now now_w self)) = timetable self \<and>
   config (snd (async_update_config cfg now now_w self)) = cfg \<and>
   editable (snd (async_update_config cfg now now_w self)) = editable self \<and>
   snd (async_update_config cfg now now_w self) =
     async_write_ha_state now_w (schedule_update now (self\<lparr>config := cfg\<rparr>)) \<and>
   timers (hass (snd (async_update_config cfg now now_w self))) =
     timers (hass (schedule_update now self)) \<and>
   event_unsub (snd (async_update_config cfg now now_w self)) =
     event_unsub (schedule_update now self) \<and>
   written (hass (snd (async_update_config cfg now now_w self))) =
     written (hass self) @
     [(state_property (timetable self) (dt_time now_w),
       (editable self, timetable_to_attribute (timetable self)))]"
  by (simp add: async_update_config_def timetable_update_state timers_update_state
      written_update_state schedule_update_config)
    (simp add: update_state_def)

subsection \<open>Reading back the ISO format\<close>

lemma of_char_digit_char: "n < 10 \<Longrightarrow> (of_char (digit_char n) :: nat) = 48 + n"
  by (simp add: digit_char_def)

lemma is_digit_digit_char: "n < 10 \<Longrightarrow> is_digit (digit_char n)"
  by (simp add: is_digit_def of_char_digit_char)

lemma digit_val_digit_char: "n < 10 \<Longrightarrow> digit_val (digit_char n) = n"
  by (simp add: digit_val_def of_char_digit_char)

lemma is_digit_not_punct:
  "is_digit c \<Longrightarrow> c \<noteq> CHR ''+'' \<and> c \<noteq> CHR ''-'' \<and> c \<noteq> CHR '':'' \<and> c \<noteq> CHR ''.''"
  by (auto simp: is_digit_def)

lemma length_fmt_digits: "length (fmt_digits k n) = k"
  by (induction k arbitrary: n) simp_all

lemma set_fmt_digits: "c \<in> set (fmt_digits k n) \<Longrightarrow> is_digit c"
  by (induction k arbitrary: n) (auto simp: is_digit_digit_char)

lemma read_digits_append:
  "read_digits acc (xs @ ys) =
     (case read_digits acc xs of None \<Rightarrow> None | Some a \<Rightarrow> read_digits a ys)"
  by (induction xs arbitrary: acc) simp_all

lemma read_digits_fmt_digits:
  "read_digits acc (fmt_digits k n) = Some (acc * 10 ^ k + n mod 10 ^ k)"
proof (induction k arbitrary: n)
  case 0
  show ?case by simp
next
  case (Suc k)
  have "n mod (10 * 10 ^ k) = 10 * (n div 10 mod 10 ^ k) + n mod 10"
    by (rule mod_mult2_eq)
  then show ?case
    by (simp add: read_digits_append Suc.IH is_digit_digit_char digit_val_digit_char algebra_simps)
qed

lemma fmt_02d_eq: "n < 100 \<Longrightarrow> fmt_02d n = [digit_char (n div 10), digit_char (n mod 10)]"
  by (simp add: fmt_02d_def numeral_2_eq_2)

lemma read2_fmt_02d: "n < 100 \<Longrightarrow> read2 (fmt_02d n @ rest) = Some (n, rest)"
  by (simp add: fmt_02d_eq is_digit_digit_char digit_val_digit_char)

lemma read_digits_fmt_06d:
  assumes "n < 1000000"
  shows "read_digits 0 (fmt_06d n) = Some n"
proof -
  have "(10::nat) ^ 6 = 1000000" by simp
  then have "n mod 10 ^ 6 = n" using assms by simp
  then show ?thesis by (simp only: fmt_06d_def read_digits_fmt_digits mult_0 add_0)
qed

lemma length_fmt_06d: "length (fmt_06d n) = 6"
  by (simp add: fmt_06d_def length_fmt_digits)

lemma set_fmt_02d: "\<forall>c \<in> set (fmt_02d n). is_digit c"
  by (simp add: fmt_02d_def set_fmt_digits)

lemma set_fmt_06d: "\<forall>c \<in> set (fmt_06d n). is_digit c"
  by (simp add: fmt_06d_def set_fmt_digits)

lemma no_sign_isoformat: "CHR ''+'' \<notin> set (isoformat t) \<and> CHR ''-'' \<notin> set (isoformat t)"
proof -
  have "\<forall>c \<in> set (isoformat t). is_digit c \<or> c = CHR '':'' \<or> c = CHR ''.''"
    using set_fmt_02d [of "hour t"] set_fmt_02d [of "minute t"] set_fmt_02d [of "second t"]
      set_fmt_06d [of "microsecond t"]
    by (auto simp: isoformat_def)
  then show ?thesis using is_digit_not_punct by fastforce
qed

lemma parse_isoformat:
  assumes "valid_time t"
  shows "parse_hh_mm_ss_ff (isoformat t) = Some (hour t, minute t, second t, microsecond t)"
proof -
  have b: "hour t < 100" "minute t < 100" "second t < 100" "microsecond t < 1000000"
    using assms by (simp_all add: valid_time_def)
  show ?thesis
    by (simp add: parse_hh_mm_ss_ff_def isoformat_def read2_fmt_02d b read_digits_fmt_06d
        length_fmt_06d)
qed

lemma fromisoformat_isoformat:
  assumes "valid_time t"
  shows "fromisoformat (isoformat t) = Inr t"
proof -
  have "mk_time (hour t) (minute t) (second t) (microsecond t) = t"
    by (simp add: mk_time_def)
  then show ?thesis
    using assms no_sign_isoformat [of t]
    by (simp add: fromisoformat_def parse_isoformat)
qed

subsection \<open>The round trip of the attribute format\<close>

lemma event_from_attribute_inverse:
  "valid_time (time e) \<Longrightarrow>
   event_from_attribute [ATTR_TIME \<mapsto> isoformat (time e), ATTR_STATE \<mapsto> state e] = Inr e"
  by (simp add: event_from_attribute_def fromisoformat_isoformat mk_event_def ATTR_TIME_def
      ATTR_STATE_def)

lemma events_from_attribute_inverse:
  "\<forall>e \<in> set tt. valid_time (time e) \<Longrightarrow> events_from_attribute (timetable_to_attribute tt) = Inr tt"
  by (induction tt) (simp_all add: timetable_to_attribute_def event_from_attribute_inverse)

lemma sort_timetable_ascending: "ascending tt \<Longrightarrow> sort_timetable tt = tt"
  by (simp add: sort_timetable_def ascending_keys sort_key_id_if_sorted)

text \<open>
  C8. For every timetable whose times are valid times of day and which is in ascending
  order (a valid timetable is, with times of whole seconds and no duplicates besides),
  reading back the attribute written for it succeeds and gives the timetable itself, so
  that writing the attribute again gives the same attribute.
\<close>

theorem serialization_round_trip:
  "(\<forall>e \<in> set tt. valid_time (time e)) \<and> ascending tt \<longrightarrow>
     timetable_from_attribute (timetable_to_attribute tt) = Inr tt \<and>
     (case timetable_from_attribute (timetable_to_attribute tt) of
        Inl err \<Rightarrow> False
      | Inr tt' \<Rightarrow> timetable_to_attribute tt' = timetable_to_attribute tt)"
  by (simp add: timetable_from_attribute_def events_from_attribute_inverse sort_timetable_ascending)

lemma iso8: "isoformat (mk_time 8 0 0 0) = ''08:00:00''"
  by code_simp

lemma iso20: "isoformat (mk_time 20 0 0 0) = ''20:00:00''"
  by code_simp

theorem serialization_round_trip_witness:
  "valid_time (time (wrap_example ! 0)) \<and> valid_time (time (wrap_example ! 1)) \<and>
   length wrap_example = 2 \<and> ascending wrap_example \<and>
   timetable_to_attribute wrap_example =
     [[''time'' \<mapsto> ''08:00:00'', ''state'' \<mapsto> ''on''],
      [''time'' \<mapsto> ''20:00:00'', ''state'' \<mapsto> ''off'']] \<and>
   timetable_from_attribute (timetable_to_attribute wrap_example) = Inr wrap_example"
proof -
  have v: "\<forall>e \<in> set wrap_example. valid_time (time e)"
    by (simp add: wrap_example_def valid_time_def mk_event_def mk_time_def)
  have v': "valid_time (time (wrap_example ! 0)) \<and> valid_time (time (wrap_example ! 1)) \<and>
      length wrap_example = 2"
    by (simp add: wrap_example_def valid_time_def mk_event_def mk_time_def)
  have a: "ascending wrap_example"
    by (simp add: wrap_example_def ascending_def time_eval)
  have s: "timetable_to_attribute wrap_example =
     [[''time'' \<mapsto> ''08:00:00'', ''state'' \<mapsto> ''on''],
      [''time'' \<mapsto> ''20:00:00'', ''state'' \<mapsto> ''off'']]"
    by (simp add: timetable_to_attribute_def wrap_example_def mk_event_def iso8 iso20
        ATTR_TIME_def ATTR_STATE_def STATE_ON_def STATE_OFF_def)
  have r: "timetable_from_attribute (timetable_to_attribute wrap_example) = Inr wrap_example"
    using serialization_round_trip [of wrap_example] v a by blast
  show ?thesis using v' a s r by blast
qed

subsection \<open>Set after a restore with duplicate times\<close>

lemma fromiso8: "fromisoformat ''08:00:00'' = Inr (mk_time 8 0 0 0)"
proof -
  have "valid_time (mk_time 8 0 0 0)"
    by (simp add: valid_time_def mk_time_def)
  then have "fromisoformat (isoformat (mk_time 8 0 0 0)) = Inr (mk_time 8 0 0 0)"
    by (rule fromisoformat_isoformat)
  then show ?thesis by (simp only: iso8)
qed

lemma corrupt_loaded:
  "timetable_from_attribute corrupt_snapshot =
     Inr [mk_event (mk_time 8 0 0 0) ''off'', mk_event (mk_time 8 0 0 0) ''off'']"
  by (simp add: timetable_from_attribute_def corrupt_snapshot_def event_from_attribute_def
      fromiso8 ATTR_TIME_def ATTR_STATE_def sort_timetable_def)

lemma async_added_to_hass_restore:
  "snapshot \<noteq> [] \<Longrightarrow> timetable_from_attribute snapshot = Inr tt \<Longrightarrow>
   async_added_to_hass (Some snapshot) now now_w self =
     (None, update_state now now_w (self\<lparr>timetable := tt\<rparr>))"
  by (cases snapshot) (simp_all add: async_added_to_hass_def)

lemma timetable_restored_corrupt:
  "timetable restored_corrupt =
     [mk_event (mk_time 8 0 0 0) STATE_OFF, mk_event (mk_time 8 0 0 0) STATE_OFF]"
proof -
  have "corrupt_snapshot \<noteq> []"
    by (simp add: corrupt_snapshot_def)
  then show ?thesis
    unfolding restored_corrupt_def
    by (simp add: async_added_to_hass_restore [OF _ corrupt_loaded] timetable_update_state
        STATE_OFF_def)
qed

text \<open>
  The snapshot with two entries at 08:00, both off, is loaded as it is. A \<^verbatim>\<open>set\<close> of
  08:00 to on then leaves two events at 08:00, the first on and the second off, and the
  state at 08:00:00 is off: the duplicates are not collapsed and the state that was set is
  not in effect.
\<close>

theorem set_after_corrupt_restore_counterexample:
  "timetable restored_corrupt =
     [mk_event (mk_time 8 0 0 0) STATE_OFF, mk_event (mk_time 8 0 0 0) STATE_OFF] \<and>
   timetable (snd (async_set (mk_time 8 0 0 0) STATE_ON (combine 7 (mk_time 9 0 0 0))
       (combine 7 (mk_time 9 0 0 0)) restored_corrupt)) =
     [mk_event (mk_time 8 0 0 0) STATE_ON, mk_event (mk_time 8 0 0 0) STATE_OFF] \<and>
   state_property (timetable (snd (async_set (mk_time 8 0 0 0) STATE_ON (combine 7 (mk_time 9 0 0 0))
       (combine 7 (mk_time 9 0 0 0)) restored_corrupt))) (mk_time 8 0 0 0) = STATE_OFF \<and>
   state_property (timetable (snd (async_set (mk_time 8 0 0 0) STATE_ON (combine 7 (mk_time 9 0 0 0))
       (combine 7 (mk_time 9 0 0 0)) restored_corrupt))) (mk_time 8 0 0 0) \<noteq> STATE_ON"
proof -
  let ?n = "combine 7 (mk_time 9 0 0 0)"
  have t: "timetable (snd (async_set (mk_time 8 0 0 0) STATE_ON ?n ?n restored_corrupt)) =
     [mk_event (mk_time 8 0 0 0) STATE_ON, mk_event (mk_time 8 0 0 0) STATE_OFF]"
    by (simp add: async_set_def timetable_update_state timetable_restored_corrupt set_timetable_def
        mk_event_def)
  have s: "state_property [mk_event (mk_time 8 0 0 0) STATE_ON, mk_event (mk_time 8 0 0 0) STATE_OFF]
      (mk_time 8 0 0 0) = STATE_OFF"
    by (simp add: state_property_def time_eval)
  have "STATE_OFF \<noteq> STATE_ON" by (simp add: STATE_ON_def STATE_OFF_def)
  with t s timetable_restored_corrupt show ?thesis by simp
qed

text \<open>
  C7, as the code has it. A load keeps every entry of the snapshot, entries at the same
  time included. A later \<^verbatim>\<open>set\<close> at a time that has events overwrites the state of
  the first event at that time and leaves every other event, the other events at that time
  included, as it is: the list keeps its times and its length.
\<close>

theorem set_overwrites_first_only:
  "(timetable_from_attribute snapshot = Inr tt \<longrightarrow> length tt = length snapshot) \<and>
   (tm \<in> time ` set (timetable self) \<longrightarrow>
      timetable (snd (async_set tm st now now_w self)) =
        takeWhile (\<lambda>e. time e \<noteq> tm) (timetable self) @
        (hd (dropWhile (\<lambda>e. time e \<noteq> tm) (timetable self)))\<lparr>state := st\<rparr> #
        tl (dropWhile (\<lambda>e. time e \<noteq> tm) (timetable self)) \<and>
      map time (timetable (snd (async_set tm st now now_w self))) = map time (timetable self))"
proof -
  have l: "events_from_attribute xs = Inr ys \<Longrightarrow> length ys = length xs" for xs ys
    by (induction xs arbitrary: ys) (auto split: sum.splits)
  have a: "timetable_from_attribute snapshot = Inr tt \<longrightarrow> length tt = length snapshot"
    by (auto simp: timetable_from_attribute_def sort_timetable_def l split: sum.splits)
  have b: "tm \<in> time ` set (timetable self) \<Longrightarrow>
      map time (timetable (snd (async_set tm st now now_w self))) = map time (timetable self)"
    using set_loop_times [of tm st "timetable self"]
    by (auto simp: async_set_def timetable_update_state set_timetable_def set_loop_None
        split: option.splits)
  have c: "tm \<in> time ` set (timetable self) \<Longrightarrow>
      timetable (snd (async_set tm st now now_w self)) =
        takeWhile (\<lambda>e. time e \<noteq> tm) (timetable self) @
        (hd (dropWhile (\<lambda>e. time e \<noteq> tm) (timetable self)))\<lparr>state := st\<rparr> #
        tl (dropWhile (\<lambda>e. time e \<noteq> tm) (timetable self))"
    by (simp add: async_set_def timetable_update_state set_timetable_def set_loop_first)
  from a b c show ?thesis by blast
qed

theorem set_overwrites_first_only_witness:
  "timetable_from_attribute corrupt_snapshot = Inr (timetable restored_corrupt) \<and>
   length (timetable restored_corrupt) = length corrupt_snapshot \<and>
   mk_time 8 0 0 0 \<in> time ` set (timetable restored_corrupt) \<and>
   map time (timetable (snd (async_set (mk_time 8 0 0 0) STATE_ON (combine 7 (mk_time 9 0 0 0))
       (combine 7 (mk_time 9 0 0 0)) restored_corrupt))) = [mk_time 8 0 0 0, mk_time 8 0 0 0]"
proof -
  have a: "timetable_from_attribute corrupt_snapshot = Inr (timetable restored_corrupt)"
    by (simp add: corrupt_loaded timetable_restored_corrupt STATE_OFF_def)
  have b: "mk_time 8 0 0 0 \<in> time ` set (timetable restored_corrupt)"
    by (simp add: timetable_restored_corrupt mk_event_def)
  have c: "map time (timetable restored_corrupt) = [mk_time 8 0 0 0, mk_time 8 0 0 0]"
    by (simp add: timetable_restored_corrupt mk_event_def)
  show ?thesis
    using set_overwrites_first_only [where snapshot = corrupt_snapshot
        and tt = "timetable restored_corrupt" and tm = "mk_time 8 0 0 0" and self = restored_corrupt
        and st = STATE_ON and now = "combine 7 (mk_time 9 0 0 0)"
        and now_w = "combine 7 (mk_time 9 0 0 0)"] a b c
    by metis
qed

subsection \<open>The single timer\<close>

lemma timer_inv_iff:
  "timer_inv self \<longleftrightarrow>
     timers (hass self) = [] \<or> (\<exists>tp. timers (hass self) = [tp] \<and> event_unsub self = Some (fst tp))"
  by (auto simp: timer_inv_def split: list.splits)

lemma timer_inv_cancel_update:
  "timer_inv self \<Longrightarrow>
   timers (hass (cancel_update self)) = [] \<and> event_unsub (cancel_update self) = None"
  by (auto simp: timer_inv_iff cancel_update_def unsub_def split: option.splits)

lemma next_handle_cancel_update: "next_handle (hass (cancel_update self)) = next_handle (hass self)"
  by (simp add: cancel_update_def unsub_def split: option.splits)

lemma timers_schedule_update:
  assumes "timer_inv self"
  shows "timers (hass (schedule_update now self)) =
     (if length (timetable self) < 2 then []
      else [(next_handle (hass self), next_change now (timetable self))]) \<and>
     event_unsub (schedule_update now self) =
     (if length (timetable self) < 2 then None else Some (next_handle (hass self)))"
proof (cases "length (timetable self) < 2")
  case True
  then have "timetable self = [] \<or> length (timetable self) = 1"
    by (cases "timetable self") auto
  then have "schedule_update now self = cancel_update self"
    by (auto simp add: schedule_update_def Let_def timetable_cancel_update)
  then show ?thesis using True timer_inv_cancel_update [OF assms] by simp
next
  case False
  then have "\<not> (timetable self = [] \<or> length (timetable self) = 1)" by auto
  then show ?thesis
    using False timer_inv_cancel_update [OF assms]
    by (simp add: schedule_update_def Let_def timetable_cancel_update async_track_point_in_time_def
        next_handle_cancel_update)
qed

lemma timer_inv_schedule_update: "timer_inv self \<Longrightarrow> timer_inv (schedule_update now self)"
  using timers_schedule_update [of self now] by (simp add: timer_inv_iff)

lemma timer_inv_update_state: "timer_inv self \<Longrightarrow> timer_inv (update_state now now_w self)"
  using timer_inv_schedule_update [of self now]
  by (simp add: timer_inv_iff update_state_def async_write_ha_state_def)

lemma timer_inv_timetable: "timer_inv (self\<lparr>timetable := tt\<rparr>) = timer_inv self"
  by (simp add: timer_inv_iff)

lemma timer_inv_config: "timer_inv (self\<lparr>config := cfg\<rparr>) = timer_inv self"
  by (simp add: timer_inv_iff)

lemma timer_inv_call_service:
  "timer_inv self \<Longrightarrow> timer_inv (snd (call_service c now now_w self))"
  by (cases c)
    (auto simp: async_set_def async_unset_def async_reset_def async_reconfig_def
      timer_inv_update_state timer_inv_timetable split: option.splits)

lemma timer_inv_added:
  "timer_inv self \<Longrightarrow> timer_inv (snd (async_added_to_hass last_timetable now now_w self))"
  by (auto simp: async_added_to_hass_def timer_inv_update_state timer_inv_timetable
      split: option.splits list.splits sum.splits)

lemma timer_inv_fired: "timer_inv self \<Longrightarrow> timer_inv (timer_fired h now now_w self)"
proof -
  assume a: "timer_inv self"
  from a consider "timers (hass self) = []"
    | tp where "timers (hass self) = [tp]" "event_unsub self = Some (fst tp)"
    by (auto simp: timer_inv_iff)
  then have "timer_inv (self\<lparr>hass := unsub h (hass self)\<rparr>)"
  proof cases
    case 1
    then show ?thesis by (simp add: timer_inv_iff unsub_def)
  next
    case 2
    then show ?thesis by (cases "fst tp = h") (simp_all add: timer_inv_iff unsub_def)
  qed
  then show ?thesis unfolding timer_fired_def by (rule timer_inv_update_state)
qed

lemma reachable_timer_inv: "reachable self \<Longrightarrow> timer_inv self"
proof (induction rule: reachable.induct)
  case (reach_init hs cfg)
  then show ?case by (simp add: timer_inv_def init_def)
next
  case (reach_yaml hs cfg)
  then show ?case by (simp add: timer_inv_def from_yaml_def init_def)
next
  case (reach_added self last_timetable now now_w)
  then show ?case by (simp add: timer_inv_added)
next
  case (reach_service self c now now_w)
  then show ?case by (simp add: timer_inv_call_service)
next
  case (reach_config self cfg now now_w)
  then show ?case by (simp add: async_update_config_def timer_inv_update_state timer_inv_config)
next
  case (reach_fired self h now now_w)
  then show ?case by (simp add: timer_inv_fired)
qed

text \<open>
  C6, as the code has it. In every state that the life of the entity reaches (creation,
  being added to the host with or without a snapshot, the four services, an update of
  the configuration, the firing of an outstanding timer) at most one timer is
  outstanding, and the entity holds its handle. \<^verbatim>\<open>_schedule_update\<close> first cancels:
  after its first lines no timer is outstanding; the timer it then arms, if any, is the
  only one.
\<close>

theorem single_outstanding_timer:
  "reachable self \<longrightarrow>
     length (timers (hass self)) \<le> 1 \<and>
     (\<forall>tp \<in> set (timers (hass self)). event_unsub self = Some (fst tp)) \<and>
     timers (hass (cancel_update self)) = [] \<and>
     timers (hass (schedule_update now self)) =
       (if length (timetable self) < 2 then []
        else [(next_handle (hass self), next_change now (timetable self))])"
proof
  assume "reachable self"
  then have inv: "timer_inv self" by (rule reachable_timer_inv)
  then have "length (timers (hass self)) \<le> 1 \<and>
      (\<forall>tp \<in> set (timers (hass self)). event_unsub self = Some (fst tp))"
    by (auto simp: timer_inv_iff)
  then show "length (timers (hass self)) \<le> 1 \<and>
     (\<forall>tp \<in> set (timers (hass self)). event_unsub self = Some (fst tp)) \<and>
     timers (hass (cancel_update self)) = [] \<and>
     timers (hass (schedule_update now self)) =
       (if length (timetable self) < 2 then []
        else [(next_handle (hass self), next_change now (timetable self))])"
    using timer_inv_cancel_update [OF inv] timers_schedule_update [OF inv, of now] by blast
qed

lemma next_change_timer_example_morning:
  "next_change (combine d (mk_time 9 0 0 0)) timer_example = combine d (mk_time 18 0 0 0)"
  by (simp add: next_change_def timer_example_def combine_def time_eval)

lemma reachable_armed_entity: "reachable armed_entity"
  unfolding armed_entity_def
  by (rule reach_service, rule reach_init) (simp add: hass0_def)

lemma entity_with_fields:
  "event_unsub (entity_with tt) = None" "timers (hass (entity_with tt)) = []"
  "next_handle (hass (entity_with tt)) = 0" "timetable (entity_with tt) = tt"
  by (simp_all add: entity_with_def init_def hass0_def)

lemma armed_entity_eq:
  "armed_entity =
     update_state (combine 7 (mk_time 9 0 0 0)) (combine 7 (mk_time 9 0 0 0)) (entity_with timer_example)"
proof -
  let ?inp = "[(mk_time 6 0 0 0, STATE_ON), (mk_time 18 0 0 0, STATE_OFF)]"
  have d: "distinct (map fst ?inp)" by (simp add: mk_time_def)
  have s: "sort_timetable (map (\<lambda>event. mk_event (fst event) (snd event)) ?inp) = timer_example"
    by (simp add: sort_timetable_def timer_example_def time_eval)
  show ?thesis
    unfolding armed_entity_def call_service.simps async_reconfig_cases entity_with_def
    using d s by simp
qed

lemma timers_armed_entity:
  "timers (hass armed_entity) = [(0, combine 7 (mk_time 18 0 0 0))] \<and> event_unsub armed_entity = Some 0"
proof -
  have "2 \<le> length (timetable (entity_with timer_example))"
    by (simp add: entity_with_fields timer_example_def)
  from schedule_update_many [OF this, of "combine 7 (mk_time 9 0 0 0)"]
  show ?thesis
    by (simp add: armed_entity_eq timers_update_state entity_with_fields
        next_change_timer_example_morning)
qed

text \<open>
  The entity with a timer armed for 18:00 is reachable, and after its removal the timer
  is still outstanding: no step of the component has cancelled it.
\<close>

theorem teardown_leaves_timer_counterexample:
  "reachable armed_entity \<and>
   timers (hass armed_entity) = [(0, combine 7 (mk_time 18 0 0 0))] \<and>
   timers (hass (async_remove armed_entity)) = [(0, combine 7 (mk_time 18 0 0 0))] \<and>
   timers (hass (async_remove armed_entity)) \<noteq> []"
  using reachable_armed_entity timers_armed_entity by (simp add: async_remove_def)

theorem single_outstanding_timer_witness:
  "reachable armed_entity \<and>
   length (timers (hass armed_entity)) \<le> 1 \<and>
   event_unsub armed_entity = Some 0 \<and>
   timers (hass (cancel_update armed_entity)) = []"
proof -
  have r: "reachable armed_entity" by (rule reachable_armed_entity)
  have "length (timers (hass armed_entity)) \<le> 1 \<and>
     (\<forall>tp \<in> set (timers (hass armed_entity)). event_unsub armed_entity = Some (fst tp)) \<and>
     timers (hass (cancel_update armed_entity)) = []"
    using single_outstanding_timer [of armed_entity] r by blast
  then show ?thesis using r timers_armed_entity by simp
qed

end
